theory Spec2Isabelle
  imports Complex_Main "HOL-Library.Word" "HOL-Library.Sublist"
begin

section \<open>Python values used by the driver\<close>

text \<open>
  The driver (klippy/extras/pla\_sear.py) reads \<open>bytes\<close> from the serial port and turns
  them into \<open>str\<close>. A byte is an 8-bit word; a \<open>str\<close> is a sequence of Unicode code
  points. The strings the driver itself creates (the entries of the outbound queue and
  the reasons handed to the host) are plain ASCII literals and are kept as HOL strings.
\<close>

type_synonym byte = "8 word"
type_synonym str = "nat list"

definition s2t :: "string \<Rightarrow> str" where
  "s2t cs = map of_char cs"

definition s2b :: "string \<Rightarrow> byte list" where
  "s2b cs = map (\<lambda>c. of_nat (of_char c)) cs"

definition CRLF :: str where
  "CRLF = [13, 10]"

definition NUL :: str where
  "NUL = [0]"

datatype error = SerialException | AttributeError | ValueError | UnicodeDecodeError

subsection \<open>bytes.decode()\<close>

text \<open>
  \<open>raw_bytes.decode()\<close> is Python 3's strict UTF-8 codec: it accepts exactly the
  well-formed byte sequences (no overlong forms, no surrogates, nothing above U+10FFFF)
  and raises \<open>UnicodeDecodeError\<close> on anything else, also on a sequence cut short by the
  end of the input. \<open>None\<close> stands for the raise.
\<close>

definition cont :: "byte \<Rightarrow> bool" where
  "cont b \<longleftrightarrow> 0x80 \<le> b \<and> b \<le> 0xBF"

definition low6 :: "byte \<Rightarrow> nat" where
  "low6 b = unat b mod 64"

definition second_ok :: "byte \<Rightarrow> byte \<Rightarrow> bool" where
  "second_ok b c =
     (if b = 0xE0 then 0xA0 \<le> c \<and> c \<le> 0xBF
      else if b = 0xED then 0x80 \<le> c \<and> c \<le> 0x9F
      else if b = 0xF0 then 0x90 \<le> c \<and> c \<le> 0xBF
      else if b = 0xF4 then 0x80 \<le> c \<and> c \<le> 0x8F
      else cont c)"

fun utf8_decode :: "byte list \<Rightarrow> str option" where
  "utf8_decode [] = Some []"
| "utf8_decode (b # bs) =
     (if b < 0x80 then map_option ((#) (unat b)) (utf8_decode bs)
      else if 0xC2 \<le> b \<and> b \<le> 0xDF then
        (case bs of
           c1 # r \<Rightarrow>
             if cont c1
             then map_option ((#) ((unat b - 0xC0) * 64 + low6 c1)) (utf8_decode r)
             else None
         | _ \<Rightarrow> None)
      else if 0xE0 \<le> b \<and> b \<le> 0xEF then
        (case bs of
           c1 # c2 # r \<Rightarrow>
             if second_ok b c1 \<and> cont c2
             then map_option ((#) ((unat b - 0xE0) * 4096 + low6 c1 * 64 + low6 c2))
                    (utf8_decode r)
             else None
         | _ \<Rightarrow> None)
      else if 0xF0 \<le> b \<and> b \<le> 0xF4 then
        (case bs of
           c1 # c2 # c3 # r \<Rightarrow>
             if second_ok b c1 \<and> cont c2 \<and> cont c3
             then map_option
                    ((#) ((unat b - 0xF0) * 262144 + low6 c1 * 4096 + low6 c2 * 64 + low6 c3))
                    (utf8_decode r)
             else None
         | _ \<Rightarrow> None)
      else None)"

subsection \<open>str.find, str.strip, str.rstrip\<close>

text \<open>
  \<open>s.find(sub)\<close> is the lowest index at which \<open>sub\<close> occurs in \<open>s\<close>, and \<open>-1\<close> when
  it does not occur.
\<close>

fun py_find :: "'a list \<Rightarrow> 'a list \<Rightarrow> int" where
  "py_find [] sub = (if sub = [] then 0 else - 1)"
| "py_find (x # xs) sub =
     (if take (length sub) (x # xs) = sub then 0
      else (let r = py_find xs sub in if r < 0 then - 1 else r + 1))"

text \<open>
  \<open>str.strip()\<close> without argument removes leading and trailing whitespace, that is,
  the code points for which \<open>str.isspace\<close> holds.
\<close>

definition isspace :: "nat \<Rightarrow> bool" where
  "isspace c \<longleftrightarrow>
     (0x09 \<le> c \<and> c \<le> 0x0D) \<or> (0x1C \<le> c \<and> c \<le> 0x20) \<or> c = 0x85 \<or> c = 0xA0 \<or>
     c = 0x1680 \<or> (0x2000 \<le> c \<and> c \<le> 0x200A) \<or> c = 0x2028 \<or> c = 0x2029 \<or>
     c = 0x202F \<or> c = 0x205F \<or> c = 0x3000"

definition py_strip :: "str \<Rightarrow> str" where
  "py_strip t = rev (dropWhile isspace (rev (dropWhile isspace t)))"

text \<open>\<open>s.rstrip(chars)\<close> removes the trailing characters that occur in \<open>chars\<close>.\<close>

definition py_rstrip :: "str \<Rightarrow> str \<Rightarrow> str" where
  "py_rstrip chars t = rev (dropWhile (\<lambda>c. c \<in> set chars) (rev t))"

section \<open>The Line Framer\<close>

text \<open>
  The inner loop of \<open>_run_Read\<close> (lines 206 to 213), with \<open>text_buffer\<close> and
  \<open>self.read_queue\<close> as loop state:
  \<^verbatim>\<open>
  while True:
      i = text_buffer.find("\r\n")
      if i >= 0:
          line = text_buffer[0 : i + 1]
          self.read_queue.append(line.strip())
          text_buffer = text_buffer[i + 1 :]
      else:
          break
  \<close>
  The loop ends because a match at \<open>i\<close> leaves a strictly shorter buffer.
\<close>

lemma py_find_bound: "0 \<le> py_find s sub \<Longrightarrow> nat (py_find s sub) + length sub \<le> length s"
proof (induction s)
  case Nil
  then show ?case by (simp split: if_splits)
next
  case (Cons x xs)
  show ?case
  proof (cases "take (length sub) (x # xs) = sub")
    case True
    then have "length (take (length sub) (x # xs)) = length sub"
      by simp
    then have "length sub \<le> length (x # xs)"
      by (simp add: min_def split: if_splits)
    with True show ?thesis by simp
  next
    case False
    with Cons.prems have nn: "0 \<le> py_find xs sub"
      by (simp add: Let_def split: if_splits)
    from Cons.IH [OF nn] False nn show ?thesis
      by (simp add: Let_def nat_add_distrib)
  qed
qed

function split_lines :: "str \<Rightarrow> str list \<Rightarrow> str list \<times> str" where
  "split_lines text_buffer queue =
     (let i = py_find text_buffer CRLF in
      if i \<ge> 0
      then split_lines (drop (nat (i + 1)) text_buffer)
             (queue @ [py_strip (take (nat (i + 1)) text_buffer)])
      else (queue, text_buffer))"
  by pat_completeness auto
termination
proof (relation "measure (\<lambda>(b, q). length b)")
  show "wf (measure (\<lambda>(b, q). length b))" by simp
next
  fix text_buffer :: str and queue :: "str list" and i :: int
  assume i: "i = py_find text_buffer CRLF" and nn: "0 \<le> i"
  from py_find_bound [of text_buffer CRLF] i nn
  have "nat i + 2 \<le> length text_buffer" by (simp add: CRLF_def)
  then show "((drop (nat (i + 1)) text_buffer, queue @ [py_strip (take (nat (i + 1)) text_buffer)]),
              (text_buffer, queue)) \<in> measure (\<lambda>(b, q). length b)"
    using nn by (simp add: nat_add_distrib)
qed

section \<open>The driver and its collaborators\<close>

text \<open>
  The fields of \<open>PLA_SensorArray\<close> that the callbacks read or write, under the names
  of the source (\<open>_failed_connection_attempts\<close> without its underscore). \<open>self.serial\<close>
  is \<open>None\<close> or the open \<open>serial.Serial\<close> object; a timer field is \<open>None\<close> or the
  handle that \<open>register_timer\<close> returned.

  The second half of the record is what the driver does to the objects it is given
  (reactor, printer, gcode, serial port), so that every call to them can be observed:
  the timers registered with the reactor, the reasons passed to
  \<open>printer.invoke_shutdown\<close>, the messages passed to \<open>gcode.respond_info\<close>, the
  payloads accepted by \<open>serial.write\<close>, the number of calls of \<open>serial.Serial(...)\<close>,
  and what the port answers to the next open, read, write and close.
\<close>

type_synonym handle = nat

datatype serial_handle = Serial string nat

datatype callback = Sample | Read | Write

datatype rd = Idle | Avail "byte list" | Fails

record state =
  serial :: "serial_handle option"
  sample_timer :: "handle option"
  read_timer :: "handle option"
  write_timer :: "handle option"
  read_buffer :: str
  read_queue :: "str list"
  write_queue :: "string list"
  failed_connection_attempts :: int
  last_debug_timestamp :: real
  last_debug_message :: str
  serial_port :: string
  timers :: "(handle \<times> callback) list"
  next_handle :: handle
  shutdown_requests :: "string list"
  console :: "str list"
  wire :: "string list"
  open_calls :: nat
  open_script :: "bool list"
  read_script :: "rd list"
  write_script :: "bool list"
  close_raises :: bool

definition SERIAL_TIMER :: real where
  "SERIAL_TIMER = 1 / 10"

definition BAUD :: nat where
  "BAUD = 115200"

text \<open>
  Modelled from the spec: the value a periodic callback returns to the scheduler, whose
  class is not in the source file. It is the next desired invocation time or the
  sentinel \<open>reactor.NEVER\<close> meaning "do not reschedule".
\<close>

datatype wake = NEVER | At real

text \<open>
  Modelled from the spec: \<open>reactor.register_timer\<close> and \<open>reactor.unregister_timer\<close>.
  Registering returns a fresh handle; unregistering removes the handle and raises when
  it is given \<open>None\<close> or a handle that is not registered (the driver's handlers log
  "already unregistered").
\<close>

definition register_timer :: "callback \<Rightarrow> state \<Rightarrow> handle \<times> state" where
  "register_timer cb s =
     (next_handle s,
      s\<lparr>timers := timers s @ [(next_handle s, cb)], next_handle := Suc (next_handle s)\<rparr>)"

definition unregister_timer :: "handle option \<Rightarrow> state \<Rightarrow> (error + unit) \<times> state" where
  "unregister_timer t s =
     (case t of
        None \<Rightarrow> (Inl AttributeError, s)
      | Some h \<Rightarrow>
          if h \<in> set (map fst (timers s))
          then (Inr (), s\<lparr>timers := filter (\<lambda>e. fst e \<noteq> h) (timers s)\<rparr>)
          else (Inl ValueError, s))"

text \<open>
  \<open>printer.invoke_shutdown\<close> and \<open>gcode.respond_info\<close> belong to the host and are not
  in the source file. Each call is recorded with its argument; what the host does with
  a shutdown request (Klipper then runs the \<open>klippy:shutdown\<close> handlers, this driver's
  \<open>_handle_shutdown\<close> among them) is not part of the record.
\<close>

definition invoke_shutdown :: "string \<Rightarrow> state \<Rightarrow> state" where
  "invoke_shutdown msg s = s\<lparr>shutdown_requests := shutdown_requests s @ [msg]\<rparr>"

definition respond_info :: "str \<Rightarrow> state \<Rightarrow> state" where
  "respond_info msg s = s\<lparr>console := console s @ [msg]\<rparr>"

text \<open>
  The serial port (pyserial, not part of the repository). Each call consumes the next
  answer of the port: \<open>serial.Serial(...)\<close> succeeds or raises, \<open>in_waiting\<close> with
  \<open>read()\<close> reports nothing waiting, delivers a chunk of bytes, or raises, and
  \<open>write\<close> succeeds or raises. When no answer is left, opening fails, nothing is
  waiting and writes succeed. Any attribute access on \<open>self.serial\<close> while it is
  \<open>None\<close> raises \<open>AttributeError\<close>. A read may deliver a chunk of any length
  (pyserial's \<open>read()\<close> without a size delivers at most one byte, which is one of
  the chunks allowed here).
\<close>

definition serial_Serial :: "state \<Rightarrow> (error + serial_handle) \<times> state" where
  "serial_Serial s =
     (let s' = s\<lparr>open_calls := Suc (open_calls s), open_script := tl (open_script s)\<rparr> in
      case open_script s of
        [] \<Rightarrow> (Inl SerialException, s')
      | ok # _ \<Rightarrow>
          (if ok then Inr (Serial (serial_port s) BAUD) else Inl SerialException, s'))"

definition serial_close :: "state \<Rightarrow> (error + unit) \<times> state" where
  "serial_close s =
     (case serial s of
        None \<Rightarrow> (Inl AttributeError, s)
      | Some h \<Rightarrow> (if close_raises s then Inl SerialException else Inr (), s))"

definition serial_read :: "state \<Rightarrow> (error + byte list) \<times> state" where
  "serial_read s =
     (case serial s of
        None \<Rightarrow> (Inl AttributeError, s)
      | Some h \<Rightarrow>
          (case read_script s of
             [] \<Rightarrow> (Inr [], s)
           | Idle # rest \<Rightarrow> (Inr [], s\<lparr>read_script := rest\<rparr>)
           | Avail bs # rest \<Rightarrow> (Inr bs, s\<lparr>read_script := rest\<rparr>)
           | Fails # rest \<Rightarrow> (Inl SerialException, s\<lparr>read_script := rest\<rparr>)))"

definition serial_write :: "string \<Rightarrow> state \<Rightarrow> (error + unit) \<times> state" where
  "serial_write payload s =
     (case serial s of
        None \<Rightarrow> (Inl AttributeError, s)
      | Some h \<Rightarrow>
          (case write_script s of
             [] \<Rightarrow> (Inr (), s\<lparr>wire := wire s @ [payload]\<rparr>)
           | ok # rest \<Rightarrow>
               if ok then (Inr (), s\<lparr>wire := wire s @ [payload], write_script := rest\<rparr>)
               else (Inl SerialException, s\<lparr>write_script := rest\<rparr>)))"

subsection \<open>disconnect\<close>

text \<open>
  \<^verbatim>\<open>
  def disconnect(self, disconnect_message="d"):
      self.write_queue.append(disconnect_message)
      try:
          self.serial.close()
      except Exception as e:
          logging.error(...)
      self.serial = None
      try:
          self.reactor.unregister_timer(self.read_timer)
      except:
          logging.info(...)
      self.read_timer = None
      try:
          self.reactor.unregister_timer(self.write_timer)
      except:
          logging.info(...)
      self.write_timer = None
  \<close>
  \<open>swallow\<close> is a \<open>try\<close> whose handler only logs: the state the call left behind is
  kept and the exception is dropped.
\<close>

definition swallow :: "(error + unit) \<times> state \<Rightarrow> state" where
  "swallow r = (case r of (Inl e, s) \<Rightarrow> s | (Inr u, s) \<Rightarrow> s)"

definition disconnect :: "string \<Rightarrow> state \<Rightarrow> (error + unit) \<times> state" where
  "disconnect disconnect_message s0 =
     (let s1 = s0\<lparr>write_queue := write_queue s0 @ [disconnect_message]\<rparr>;
          s2 = swallow (serial_close s1);
          s3 = s2\<lparr>serial := None\<rparr>;
          s4 = swallow (unregister_timer (read_timer s3) s3);
          s5 = s4\<lparr>read_timer := None\<rparr>;
          s6 = swallow (unregister_timer (write_timer s5) s5);
          s7 = s6\<lparr>write_timer := None\<rparr>
      in (Inr (), s7))"

definition handle_disconnect :: "state \<Rightarrow> (error + unit) \<times> state" where
  "handle_disconnect s = disconnect ''d'' s"

definition handle_shutdown :: "state \<Rightarrow> (error + unit) \<times> state" where
  "handle_shutdown s = handle_disconnect s"

subsection \<open>Connecting\<close>

text \<open>
  \<open>_init_PLA_SEAR\<close>: a failed open is caught, counted and ends the call; a successful
  one resets the counter, replaces both queues by empty lists and registers the read
  and write timers. \<open>self.read_buffer\<close> is not touched.
\<close>

definition init_PLA_SEAR :: "state \<Rightarrow> state" where
  "init_PLA_SEAR s0 =
     (case serial_Serial s0 of
        (Inl e, s1) \<Rightarrow>
          s1\<lparr>failed_connection_attempts := failed_connection_attempts s1 + 1\<rparr>
      | (Inr h, s1) \<Rightarrow>
          (let s2 = s1\<lparr>serial := Some h, failed_connection_attempts := 0\<rparr>;
               s3 = s2\<lparr>write_queue := [], read_queue := []\<rparr>;
               (rt, s4) = register_timer Read s3;
               s5 = s4\<lparr>read_timer := Some rt\<rparr>;
               (wt, s6) = register_timer Write s5
           in s6\<lparr>write_timer := Some wt\<rparr>))"

definition handle_connect :: "state \<Rightarrow> state" where
  "handle_connect s = (if serial s = None then init_PLA_SEAR s else s)"

subsection \<open>The poll callback\<close>

text \<open>
  \<open>_sample_PLA_SEAR\<close>. Nothing inside its \<open>try\<close> can raise \<open>SerialException\<close>
  (\<open>_init_PLA_SEAR\<close> catches every exception of the open, and appending to a list
  does not raise), so the handler that resets \<open>self.temp\<close> is never entered.
\<close>

definition sample_PLA_SEAR :: "real \<Rightarrow> state \<Rightarrow> wake \<times> state" where
  "sample_PLA_SEAR eventtime s =
     (if failed_connection_attempts s < 5
      then (At (eventtime + SERIAL_TIMER),
            if serial s = None then handle_connect s
            else s\<lparr>write_queue := write_queue s @ [''read'']\<rparr>)
      else (NEVER,
            invoke_shutdown ''Connection to SensorArray lost and could not be reestablished!'' s))"

subsection \<open>The Line Consumer\<close>

text \<open>
  \<^verbatim>\<open>
  def _process_read_queue(self):
      while not len(self.read_queue) == 0:
          text_line = self.read_queue.pop(0)
          tmp = str(text_line.rstrip("\x00"))
          self.gcode.respond_info(f"Output from SensorArray: {str(tmp)}")
  \<close>
\<close>

function process_read_queue :: "state \<Rightarrow> state" where
  "process_read_queue s =
     (case read_queue s of
        [] \<Rightarrow> s
      | text_line # rest \<Rightarrow>
          (let s1 = s\<lparr>read_queue := rest\<rparr>;
               tmp = py_rstrip NUL text_line
           in process_read_queue (respond_info (s2t ''Output from SensorArray: '' @ tmp) s1)))"
  by pat_completeness auto
termination
  by (relation "measure (\<lambda>s. length (read_queue s))") (simp_all add: respond_info_def)

subsection \<open>The Read Pump\<close>

text \<open>
  Lines 203 to 214 of \<open>_run_Read\<close>: a non-empty chunk is decoded, appended to
  \<open>self.read_buffer\<close> and cut into lines. The decoding is outside the \<open>try\<close>, so its
  error leaves the callback.
\<close>

definition feed :: "byte list \<Rightarrow> state \<Rightarrow> (error + unit) \<times> state" where
  "feed raw_bytes s =
     (if raw_bytes \<noteq> []
      then (case utf8_decode raw_bytes of
              None \<Rightarrow> (Inl UnicodeDecodeError, s)
            | Some decoded \<Rightarrow>
                (let (q, b) = split_lines (read_buffer s @ decoded) (read_queue s)
                 in (Inr (), s\<lparr>read_queue := q, read_buffer := b\<rparr>)))
      else (Inr (), s))"

text \<open>
  The outer loop of \<open>_run_Read\<close> (lines 191 to 224):
  \<^verbatim>\<open>
  while True:
      try:
          raw_bytes = ""
          if self.serial.in_waiting > 0:
              raw_bytes = self.serial.read()
      except Exception as e:
          self.disconnect()
          break
      if len(raw_bytes):
          ...
      if len(raw_bytes)>1000:
          self.printer.invoke_shutdown("Buffer to large.")
      else:
          break
  \<close>
  The loop goes round again only after a chunk of more than 1000 bytes; each round
  consumes one answer of the port, so it ends when the port has no more to deliver.
\<close>

lemma serial_read_script:
  "serial_read s = (Inr raw_bytes, s1) \<Longrightarrow> raw_bytes \<noteq> [] \<Longrightarrow>
   length (read_script s1) < length (read_script s)"
  by (auto simp: serial_read_def split: option.splits list.splits rd.splits)

lemma feed_script: "feed raw_bytes s1 = (r, s2) \<Longrightarrow> read_script s2 = read_script s1"
  by (auto simp: feed_def split: if_splits option.splits prod.splits)

function read_loop :: "state \<Rightarrow> (error + unit) \<times> state" where
  "read_loop s =
     (case serial_read s of
        (Inl e, s1) \<Rightarrow> disconnect ''d'' s1
      | (Inr raw_bytes, s1) \<Rightarrow>
          (case feed raw_bytes s1 of
             (Inl e, s2) \<Rightarrow> (Inl e, s2)
           | (Inr u, s2) \<Rightarrow>
               if length raw_bytes > 1000
               then read_loop (invoke_shutdown ''Buffer to large.'' s2)
               else (Inr (), s2)))"
  by pat_completeness auto
termination
proof (relation "measure (\<lambda>s. length (read_script s))")
  show "wf (measure (\<lambda>s. length (read_script s)))" by simp
next
  fix s x1 s1 raw_bytes x s2 u
  assume rd: "(x1, s1) = serial_read s" "x1 = Inr raw_bytes"
    and fd: "(x, s2) = feed raw_bytes s1" and big: "1000 < length raw_bytes"
  from big have ne: "raw_bytes \<noteq> []" by auto
  from rd have "serial_read s = (Inr raw_bytes, s1)" by simp
  from serial_read_script [OF this ne]
  have "length (read_script s1) < length (read_script s)" .
  moreover from fd have "read_script s2 = read_script s1"
    using feed_script [of raw_bytes s1 x s2] by simp
  ultimately show "(invoke_shutdown ''Buffer to large.'' s2, s) \<in> measure (\<lambda>s. length (read_script s))"
    by (simp add: invoke_shutdown_def)
qed

text \<open>
  \<open>_run_Read\<close>; \<open>now\<close> is what \<open>self.reactor.monotonic()\<close> returns at line 228.
\<close>

definition run_Read :: "real \<Rightarrow> real \<Rightarrow> state \<Rightarrow> (error + wake) \<times> state" where
  "run_Read now eventtime s =
     (case read_loop s of
        (Inl e, s1) \<Rightarrow> (Inl e, s1)
      | (Inr u, s1) \<Rightarrow>
          (let s2 = s1\<lparr>last_debug_timestamp := now\<rparr>;
               s3 = process_read_queue s2
           in (Inr (At (eventtime + SERIAL_TIMER)), s3)))"

subsection \<open>The Write Pump\<close>

text \<open>
  \<^verbatim>\<open>
  while not len(self.write_queue) == 0:
      text_line = self.write_queue.pop(0)
      if text_line:
          try:
              self.serial.write(text_line.encode())
          except Exception as e:
              self.disconnect()
              break
  return eventtime + SERIAL_TIMER
  \<close>
\<close>

lemma serial_write_queue: "serial_write payload s1 = (r, s2) \<Longrightarrow> write_queue s2 = write_queue s1"
  by (auto simp: serial_write_def split: option.splits list.splits if_splits)

function write_loop :: "state \<Rightarrow> (error + unit) \<times> state" where
  "write_loop s =
     (case write_queue s of
        [] \<Rightarrow> (Inr (), s)
      | text_line # rest \<Rightarrow>
          (let s1 = s\<lparr>write_queue := rest\<rparr> in
           if text_line \<noteq> []
           then (case serial_write text_line s1 of
                   (Inl e, s2) \<Rightarrow> disconnect ''d'' s2
                 | (Inr u, s2) \<Rightarrow> write_loop s2)
           else write_loop s1))"
  by pat_completeness auto
termination
proof (relation "measure (\<lambda>s. length (write_queue s))")
  show "wf (measure (\<lambda>s. length (write_queue s)))" by simp
next
  fix s s1 s2 :: state and text_line rest x
  assume "write_queue s = text_line # rest" and "s1 = s\<lparr>write_queue := rest\<rparr>"
    and "(x, s2) = serial_write text_line s1"
  then show "(s2, s) \<in> measure (\<lambda>s. length (write_queue s))"
    using serial_write_queue [of text_line s1 x s2] by simp
next
  fix s s1 :: state and text_line rest
  assume "write_queue s = text_line # rest" and "s1 = s\<lparr>write_queue := rest\<rparr>"
  then show "(s1, s) \<in> measure (\<lambda>s. length (write_queue s))" by simp
qed

definition run_Write :: "real \<Rightarrow> state \<Rightarrow> (error + wake) \<times> state" where
  "run_Write eventtime s =
     (case write_loop s of
        (Inl e, s1) \<Rightarrow> (Inl e, s1)
      | (Inr u, s1) \<Rightarrow> (Inr (At (eventtime + SERIAL_TIMER)), s1))"

subsection \<open>Status and construction\<close>

text \<open>
  \<open>get_status\<close> returns the dictionary with the two keys \<open>last_debug_timestamp\<close> and
  \<open>last_debug_message\<close>, here the pair of their values.
\<close>

definition get_status :: "state \<Rightarrow> real \<times> str" where
  "get_status s = (last_debug_timestamp s, last_debug_message s)"

text \<open>
  \<open>__init__\<close>: the driver starts disconnected with empty buffer and queues and with
  its poll callback registered; \<open>now\<close> is \<open>reactor.monotonic()\<close> at construction. The
  four last arguments say how the port will answer.
\<close>

definition init_state ::
  "string \<Rightarrow> real \<Rightarrow> bool list \<Rightarrow> rd list \<Rightarrow> bool list \<Rightarrow> bool \<Rightarrow> state" where
  "init_state port now os rs ws cr =
     \<lparr>serial = None, sample_timer = Some 0, read_timer = None, write_timer = None,
      read_buffer = [], read_queue = [], write_queue = [],
      failed_connection_attempts = 0, last_debug_timestamp = now, last_debug_message = [],
      serial_port = port, timers = [(0, Sample)], next_handle = 1,
      shutdown_requests = [], console = [], wire = [], open_calls = 0,
      open_script = os, read_script = rs, write_script = ws, close_raises = cr\<rparr>"

section \<open>Functions used to state the properties\<close>

subsection \<open>What the framer cuts\<close>

text \<open>
  \<open>segments\<close> lists the values that \<open>line\<close> takes in the framing loop, before
  \<open>strip()\<close>, and \<open>remainder\<close> is the \<open>text_buffer\<close> the loop ends with.
  \<open>feed_all\<close> feeds a sequence of chunks to the framer, one \<open>feed\<close> per chunk, and
  \<open>stream_segments\<close>, \<open>stream_remainder\<close> follow the buffer through the decoded
  chunks (an empty chunk is not framed). \<open>fresh\<close> is a driver just constructed.
\<close>

function segments :: "str \<Rightarrow> str list" where
  "segments text_buffer =
     (let i = py_find text_buffer CRLF in
      if i \<ge> 0
      then take (nat (i + 1)) text_buffer # segments (drop (nat (i + 1)) text_buffer)
      else [])"
  by pat_completeness auto
termination
proof (relation "measure length")
  show "wf (measure length)" by simp
next
  fix text_buffer :: str and i :: int
  assume i: "i = py_find text_buffer CRLF" and nn: "0 \<le> i"
  from py_find_bound [of text_buffer CRLF] i nn
  have "nat i + 2 \<le> length text_buffer" by (simp add: CRLF_def)
  then show "(drop (nat (i + 1)) text_buffer, text_buffer) \<in> measure length"
    using nn by (simp add: nat_add_distrib)
qed

function remainder :: "str \<Rightarrow> str" where
  "remainder text_buffer =
     (let i = py_find text_buffer CRLF in
      if i \<ge> 0 then remainder (drop (nat (i + 1)) text_buffer) else text_buffer)"
  by pat_completeness auto
termination
proof (relation "measure length")
  show "wf (measure length)" by simp
next
  fix text_buffer :: str and i :: int
  assume i: "i = py_find text_buffer CRLF" and nn: "0 \<le> i"
  from py_find_bound [of text_buffer CRLF] i nn
  have "nat i + 2 \<le> length text_buffer" by (simp add: CRLF_def)
  then show "(drop (nat (i + 1)) text_buffer, text_buffer) \<in> measure length"
    using nn by (simp add: nat_add_distrib)
qed




definition fresh :: state where
  "fresh = init_state ''/dev/ttyUSB0'' 0 [] [] [] False"

subsection \<open>States used as examples\<close>

text \<open>
  \<open>connected\<close> is a driver after its first successful connection (the port will
  accept one more open); \<open>busy\<close> is the same driver with a partial line in the read
  buffer and one entry in each queue.
\<close>

definition connected :: state where
  "connected = handle_connect (init_state ''/dev/ttyUSB0'' 0 [True, True] [] [] False)"

definition busy :: state where
  "busy = connected\<lparr>read_buffer := s2t ''7.'', read_queue := [s2t ''12.5''],
                    write_queue := [''read'']\<rparr>"

text \<open>\<open>reading\<close> is a connected driver whose port holds one complete line.\<close>

definition reading :: state where
  "reading = connected\<lparr>read_script := [Avail (s2b (''12.5'' @ [CHR 0x0D, CHR 0x0A]))]\<rparr>"

subsection \<open>Reads of the port\<close>

text \<open>
  \<open>big\<close> holds for an answer of the port that delivers more than 1000 bytes, and
  \<open>decodes\<close> for one whose bytes, if any, are well-formed UTF-8. \<open>waiting\<close> and
  \<open>failing\<close> are connected drivers whose port will deliver \<open>a\<close> and then \<open>b\<close>,
  and a failing read.
\<close>

fun big :: "rd \<Rightarrow> bool" where
  "big (Avail raw) = (1000 < length raw)"
| "big Idle = False"
| "big Fails = False"


definition waiting :: state where
  "waiting = connected\<lparr>read_script := [Avail (s2b ''a''), Avail (s2b ''b'')]\<rparr>"

definition failing :: state where
  "failing = connected\<lparr>read_script := [Fails]\<rparr>"



subsection \<open>Runs of the poll callback\<close>

text \<open>
  \<open>LOST\<close> is the reason the poll callback passes to \<open>invoke_shutdown\<close>. \<open>ticks\<close>
  calls the callback at each of the given times, whatever it returned before.
\<close>

definition LOST :: string where
  "LOST = ''Connection to SensorArray lost and could not be reestablished!''"

fun ticks :: "real list \<Rightarrow> state \<Rightarrow> wake list \<times> state" where
  "ticks [] s = ([], s)"
| "ticks (t # ts) s =
     (let (w, s1) = sample_PLA_SEAR t s; (ws, s2) = ticks ts s1 in (w # ws, s2))"

text \<open>
  Modelled from the spec: the scheduler (reactor) is not in the source file. It invokes
  a periodic callback at its next time and, once the callback has returned the
  sentinel, never again.
\<close>

fun schedule :: "real list \<Rightarrow> state \<Rightarrow> state" where
  "schedule [] s = s"
| "schedule (t # ts) s =
     (case sample_PLA_SEAR t s of (NEVER, s1) \<Rightarrow> s1 | (At t', s1) \<Rightarrow> schedule ts s1)"

text \<open>\<open>exhausted\<close> is a fresh driver after five ticks on a port that cannot be opened.\<close>

definition exhausted :: state where
  "exhausted = snd (ticks [1, 2, 3, 4, 5] fresh)"

subsection \<open>Writes and timers\<close>

text \<open>
  \<open>nonempty\<close> is the truth value of a Python string. \<open>queued\<close> is a connected driver
  with the entries \<open>A\<close>, the empty string, \<open>B\<close> and \<open>C\<close> in its outbound queue;
  in \<open>breaking\<close> the port accepts the first write and fails the second. In
  \<open>stray\<close> the port delivers the single byte \<open>0xC2\<close>, the first half of a two-byte
  character.
\<close>

definition nonempty :: "string \<Rightarrow> bool" where
  "nonempty = (\<lambda>x. x \<noteq> [])"

definition queued :: state where
  "queued = connected\<lparr>write_queue := [''A'', [], ''B'', ''C'']\<rparr>"

definition breaking :: state where
  "breaking = connected\<lparr>write_queue := [''A'', [], ''B'', ''C''], write_script := [True, False]\<rparr>"



declare split_lines.simps [simp del] segments.simps [simp del] remainder.simps [simp del]


section \<open>Properties\<close>

subsection \<open>Line Framer\<close>

lemma split_lines_segments:
  "split_lines b q = (q @ map py_strip (segments b), remainder b)"
proof (induction b q rule: split_lines.induct)
  case (1 text_buffer queue)
  show ?case
  proof (cases "0 \<le> py_find text_buffer CRLF")
    case True
    from "1" [OF refl True] True show ?thesis
      by (subst split_lines.simps, subst segments.simps, subst remainder.simps)
         (simp add: Let_def)
  next
    case False
    then show ?thesis
      by (subst split_lines.simps, subst segments.simps, subst remainder.simps)
         (simp add: Let_def)
  qed
qed













subsection \<open>disconnect\<close>

lemma swallow_unregister:
  "swallow (unregister_timer t s) = s\<lparr>timers := filter (\<lambda>e. Some (fst e) \<noteq> t) (timers s)\<rparr>"
proof (cases t)
  case None
  then show ?thesis by (simp add: swallow_def unregister_timer_def)
next
  case (Some h)
  show ?thesis
  proof (cases "h \<in> set (map fst (timers s))")
    case True
    with Some show ?thesis by (simp add: swallow_def unregister_timer_def)
  next
    case False
    then have "filter (\<lambda>e. fst e \<noteq> h) (timers s) = timers s"
      by (auto simp: filter_id_conv)
    with False Some show ?thesis by (simp add: swallow_def unregister_timer_def)
  qed
qed

lemma swallow_close: "swallow (serial_close s) = s"
  by (simp add: swallow_def serial_close_def split: option.splits)

lemma disconnect_eq:
  "disconnect m s =
     (Inr (), s\<lparr>serial := None, read_timer := None, write_timer := None,
               write_queue := write_queue s @ [m],
               timers := filter (\<lambda>e. Some (fst e) \<noteq> read_timer s \<and> Some (fst e) \<noteq> write_timer s)
                           (timers s)\<rparr>)"
  by (simp add: disconnect_def Let_def swallow_close swallow_unregister conj_commute)


lemma init_PLA_SEAR_success:
  "open_script s = True # os \<Longrightarrow>
   init_PLA_SEAR s =
     s\<lparr>serial := Some (Serial (serial_port s) BAUD), read_timer := Some (next_handle s),
       write_timer := Some (Suc (next_handle s)), read_queue := [], write_queue := [],
       failed_connection_attempts := 0,
       timers := timers s @ [(next_handle s, Read), (Suc (next_handle s), Write)],
       next_handle := Suc (Suc (next_handle s)),
       open_calls := Suc (open_calls s), open_script := os\<rparr>"
  by (simp add: init_PLA_SEAR_def serial_Serial_def register_timer_def Let_def)

lemma init_PLA_SEAR_failure:
  "open_script s = [] \<or> open_script s = False # os \<Longrightarrow>
   init_PLA_SEAR s =
     s\<lparr>failed_connection_attempts := failed_connection_attempts s + 1,
       open_calls := Suc (open_calls s), open_script := tl (open_script s)\<rparr>"
  by (auto simp: init_PLA_SEAR_def serial_Serial_def Let_def)

lemma connected_eq:
  "connected =
     \<lparr>serial = Some (Serial ''/dev/ttyUSB0'' BAUD), sample_timer = Some 0, read_timer = Some 1,
      write_timer = Some 2, read_buffer = [], read_queue = [], write_queue = [],
      failed_connection_attempts = 0, last_debug_timestamp = 0, last_debug_message = [],
      serial_port = ''/dev/ttyUSB0'', timers = [(0, Sample), (1, Read), (2, Write)],
      next_handle = 3, shutdown_requests = [], console = [], wire = [], open_calls = 1,
      open_script = [True], read_script = [], write_script = [], close_raises = False\<rparr>"
  by (simp add: connected_def handle_connect_def init_state_def init_PLA_SEAR_success [of _ "[True]"]
      numeral_2_eq_2 numeral_3_eq_3)

text \<open>
  Claim C7. \<open>disconnect\<close> never raises and leaves \<open>self.serial\<close> at \<open>None\<close>: for
  every state and message, for a second call right after the first, and for a driver
  that was never connected, where closing the missing handle and unregistering the
  missing timers do raise and the handlers swallow it. The same holds for the two host
  event handlers that call it.
\<close>

theorem disconnect_never_raises:
  "fst (disconnect m s) = Inr () \<and> serial (snd (disconnect m s)) = None \<and>
   fst (disconnect m' (snd (disconnect m s))) = Inr () \<and>
   serial (snd (disconnect m' (snd (disconnect m s)))) = None \<and>
   fst (serial_close fresh) = Inl AttributeError \<and>
   fst (unregister_timer (read_timer fresh) fresh) = Inl AttributeError \<and>
   fst (unregister_timer (write_timer fresh) fresh) = Inl AttributeError \<and>
   fst (disconnect m fresh) = Inr () \<and> serial (snd (disconnect m fresh)) = None \<and>
   fst (handle_disconnect s) = Inr () \<and> serial (snd (handle_disconnect s)) = None \<and>
   fst (handle_shutdown s) = Inr () \<and> serial (snd (handle_shutdown s)) = None"
  by (simp add: disconnect_eq handle_disconnect_def handle_shutdown_def fresh_def init_state_def
      serial_close_def unregister_timer_def)


text \<open>
  Claim C4, as the code has it. After every call to \<open>disconnect\<close>, whatever the state
  before: the serial handle and both timer fields are \<open>None\<close> and the handles they held
  are no longer registered; the outbound queue is the previous queue followed by the
  disconnect message, and the read buffer and the inbound queue are what they were. On
  the next successful connection both queues are replaced by empty lists and fresh
  timers are registered; the read buffer is still what it was.
\<close>

theorem disconnect_effect:
  "serial (snd (disconnect m s)) = None \<and>
   read_timer (snd (disconnect m s)) = None \<and>
   write_timer (snd (disconnect m s)) = None \<and>
   (\<forall>h. read_timer s = Some h \<or> write_timer s = Some h \<longrightarrow>
        h \<notin> set (map fst (timers (snd (disconnect m s))))) \<and>
   write_queue (snd (disconnect m s)) = write_queue s @ [m] \<and>
   read_buffer (snd (disconnect m s)) = read_buffer s \<and>
   read_queue (snd (disconnect m s)) = read_queue s \<and>
   (open_script s = True # os \<longrightarrow>
      serial (handle_connect (snd (disconnect m s))) = Some (Serial (serial_port s) BAUD) \<and>
      write_queue (handle_connect (snd (disconnect m s))) = [] \<and>
      read_queue (handle_connect (snd (disconnect m s))) = [] \<and>
      read_buffer (handle_connect (snd (disconnect m s))) = read_buffer s \<and>
      read_timer (handle_connect (snd (disconnect m s))) = Some (next_handle s) \<and>
      write_timer (handle_connect (snd (disconnect m s))) = Some (Suc (next_handle s)) \<and>
      timers (handle_connect (snd (disconnect m s))) =
        timers (snd (disconnect m s)) @ [(next_handle s, Read), (Suc (next_handle s), Write)])"
proof -
  have "open_script s = True # os \<Longrightarrow> open_script (snd (disconnect m s)) = True # os"
    by (simp add: disconnect_eq)
  from init_PLA_SEAR_success [OF this]
  have "open_script s = True # os \<Longrightarrow>
        handle_connect (snd (disconnect m s)) =
          (snd (disconnect m s))
            \<lparr>serial := Some (Serial (serial_port s) BAUD), read_timer := Some (next_handle s),
             write_timer := Some (Suc (next_handle s)), read_queue := [], write_queue := [],
             failed_connection_attempts := 0,
             timers := timers (snd (disconnect m s)) @ [(next_handle s, Read), (Suc (next_handle s), Write)],
             next_handle := Suc (Suc (next_handle s)),
             open_calls := Suc (open_calls s), open_script := os\<rparr>"
    by (simp add: handle_connect_def disconnect_eq)
  then show ?thesis
    by (auto simp: disconnect_eq)
qed

theorem disconnect_effect_witness:
  "read_timer busy = Some 1 \<and> write_timer busy = Some 2 \<and> open_script busy = True # [] \<and>
   timers busy = [(0, Sample), (1, Read), (2, Write)] \<and>
   serial (snd (disconnect ''d'' busy)) = None \<and>
   timers (snd (disconnect ''d'' busy)) = [(0, Sample)] \<and>
   1 \<notin> set (map fst (timers (snd (disconnect ''d'' busy)))) \<and>
   2 \<notin> set (map fst (timers (snd (disconnect ''d'' busy)))) \<and>
   write_queue (snd (disconnect ''d'' busy)) = [''read'', ''d''] \<and>
   read_buffer (snd (disconnect ''d'' busy)) = s2t ''7.'' \<and>
   read_queue (snd (disconnect ''d'' busy)) = [s2t ''12.5''] \<and>
   write_queue (handle_connect (snd (disconnect ''d'' busy))) = [] \<and>
   read_queue (handle_connect (snd (disconnect ''d'' busy))) = [] \<and>
   read_buffer (handle_connect (snd (disconnect ''d'' busy))) = s2t ''7.'' \<and>
   timers (handle_connect (snd (disconnect ''d'' busy))) = [(0, Sample), (3, Read), (4, Write)]"
proof -
  have b: "read_timer busy = Some 1" "write_timer busy = Some 2" "open_script busy = True # []"
    "timers busy = [(0, Sample), (1, Read), (2, Write)]" "write_queue busy = [''read'']"
    "read_buffer busy = s2t ''7.''" "read_queue busy = [s2t ''12.5'']" "next_handle busy = 3"
    by (simp_all add: busy_def connected_eq)
  have t: "timers (snd (disconnect ''d'' busy)) = [(0, Sample)]"
    by (simp add: disconnect_eq b)
  from disconnect_effect [of "''d''" busy "[]"] b t show ?thesis
    by (simp add: numeral_eq_Suc)
qed

theorem disconnect_clears_counterexample:
  "write_queue (snd (disconnect ''d'' fresh)) = [''d''] \<and>
   write_queue (snd (disconnect ''d'' busy)) = [''read'', ''d''] \<and>
   read_buffer (snd (disconnect ''d'' busy)) = s2t ''7.'' \<and>
   read_queue (snd (disconnect ''d'' busy)) = [s2t ''12.5''] \<and>
   read_buffer (handle_connect (snd (disconnect ''d'' busy))) = s2t ''7.''"
  by (simp add: disconnect_eq busy_def connected_eq fresh_def init_state_def handle_connect_def
      init_PLA_SEAR_success [of _ "[]"])

declare process_read_queue.simps [simp del] read_loop.simps [simp del] write_loop.simps [simp del]

subsection \<open>Line Consumer\<close>

lemma process_read_queue_eq:
  "process_read_queue s =
     s\<lparr>read_queue := [],
       console := console s @
         map (\<lambda>l. s2t ''Output from SensorArray: '' @ py_rstrip NUL l) (read_queue s)\<rparr>"
proof (induction s rule: process_read_queue.induct)
  case (1 s)
  show ?case
  proof (cases "read_queue s")
    case Nil
    then show ?thesis by (subst process_read_queue.simps) simp
  next
    case (Cons text_line rest)
    from "1" [OF Cons refl refl] Cons show ?thesis
      by (subst process_read_queue.simps) (simp add: respond_info_def)
  qed
qed

lemma py_rstrip_decomp: "l = py_rstrip chars l @ rev (takeWhile (\<lambda>c. c \<in> set chars) (rev l))"
proof -
  let ?P = "\<lambda>c. c \<in> set chars"
  have "rev (dropWhile ?P (rev l)) @ rev (takeWhile ?P (rev l)) =
        rev (takeWhile ?P (rev l) @ dropWhile ?P (rev l))"
    by (simp only: rev_append)
  also have "\<dots> = l"
    by (simp only: takeWhile_dropWhile_id rev_rev_ident)
  finally show ?thesis by (simp only: py_rstrip_def)
qed

lemma py_rstrip_NUL_tail: "\<exists>k. l = py_rstrip NUL l @ replicate k 0"
proof -
  let ?t = "rev (takeWhile (\<lambda>c. c \<in> set NUL) (rev l))"
  have "\<forall>y \<in> set ?t. y = 0"
    by (auto simp: NUL_def dest: set_takeWhileD)
  then have "replicate (length ?t) 0 = ?t"
    by (rule replicate_length_same)
  with py_rstrip_decomp [of l NUL] have "l = py_rstrip NUL l @ replicate (length ?t) 0"
    by simp
  then show ?thesis ..
qed

lemma py_rstrip_NUL_last: "py_rstrip NUL l = [] \<or> last (py_rstrip NUL l) \<noteq> 0"
proof (cases "dropWhile (\<lambda>c. c \<in> set NUL) (rev l)")
  case Nil
  then show ?thesis by (simp add: py_rstrip_def)
next
  case (Cons x xs)
  then have "dropWhile (\<lambda>c. c \<in> set NUL) (rev l) \<noteq> []" by simp
  from hd_dropWhile [OF this] Cons have "x \<notin> set NUL" by simp
  then have "x \<noteq> 0" by (simp add: NUL_def)
  with Cons show ?thesis by (simp add: py_rstrip_def)
qed

text \<open>
  Claim C9, as the code has it. One run of the Line Consumer empties the inbound queue
  and forwards its lines in queue order, each as \<open>Output from SensorArray: \<close> followed
  by the line without its trailing null characters: what is removed is a run of nulls
  at the end of the line, and what is forwarded is empty or ends with another
  character. Nulls before the last other character are forwarded.
\<close>

theorem line_consumer_forwards:
  "read_queue (process_read_queue s) = [] \<and>
   console (process_read_queue s) =
     console s @ map (\<lambda>l. s2t ''Output from SensorArray: '' @ py_rstrip NUL l) (read_queue s) \<and>
   (\<forall>l \<in> set (read_queue s).
      (\<exists>k. l = py_rstrip NUL l @ replicate k 0) \<and>
      (py_rstrip NUL l = [] \<or> last (py_rstrip NUL l) \<noteq> 0))"
  using py_rstrip_NUL_tail py_rstrip_NUL_last by (simp add: process_read_queue_eq)

theorem line_consumer_forwards_witness:
  "read_queue (process_read_queue (fresh\<lparr>read_queue := [[97, 0, 98, 0, 0], [0, 0]]\<rparr>)) = [] \<and>
   console (process_read_queue (fresh\<lparr>read_queue := [[97, 0, 98, 0, 0], [0, 0]]\<rparr>)) =
     [s2t ''Output from SensorArray: '' @ [97, 0, 98], s2t ''Output from SensorArray: ''] \<and>
   py_rstrip NUL [97, 0, 98, 0, 0] = [97, 0, 98] \<and> last (py_rstrip NUL [97, 0, 98, 0, 0]) \<noteq> 0 \<and>
   [97, 0, 98, 0, 0] = py_rstrip NUL [97, 0, 98, 0, 0] @ replicate 2 0 \<and>
   py_rstrip NUL [0, 0] = []"
proof -
  have r: "py_rstrip NUL [97, 0, 98, 0, 0] = [97, 0, 98]" "py_rstrip NUL [0, 0] = []"
    by (simp_all add: py_rstrip_def NUL_def)
  have q: "read_queue (fresh\<lparr>read_queue := [[97, 0, 98, 0, 0], [0, 0]]\<rparr>) = [[97, 0, 98, 0, 0], [0, 0]]"
    and c: "console (fresh\<lparr>read_queue := [[97, 0, 98, 0, 0], [0, 0]]\<rparr>) = []"
    by (simp_all add: fresh_def init_state_def)
  from line_consumer_forwards [of "fresh\<lparr>read_queue := [[97, 0, 98, 0, 0], [0, 0]]\<rparr>"]
  show ?thesis
    unfolding q c by (simp add: r numeral_2_eq_2)
qed

theorem line_consumer_nul_counterexample:
  "console (process_read_queue (fresh\<lparr>read_queue := [[97, 0, 98]]\<rparr>)) =
     [s2t ''Output from SensorArray: '' @ [97, 0, 98]] \<and>
   0 \<in> set (last (console (process_read_queue (fresh\<lparr>read_queue := [[97, 0, 98]]\<rparr>))))"
  by (simp add: process_read_queue_eq fresh_def init_state_def py_rstrip_def NUL_def)

subsection \<open>Read Pump\<close>

lemma read_loop_cases:
  "read_loop s =
     (case serial s of
        None \<Rightarrow> disconnect ''d'' s
      | Some h \<Rightarrow>
          (case read_script s of
             [] \<Rightarrow> (Inr (), s)
           | Idle # rest \<Rightarrow> (Inr (), s\<lparr>read_script := rest\<rparr>)
           | Fails # rest \<Rightarrow> disconnect ''d'' (s\<lparr>read_script := rest\<rparr>)
           | Avail raw # rest \<Rightarrow>
               (case feed raw (s\<lparr>read_script := rest\<rparr>) of
                  (Inl e, s2) \<Rightarrow> (Inl e, s2)
                | (Inr u, s2) \<Rightarrow>
                    if 1000 < length raw
                    then read_loop (invoke_shutdown ''Buffer to large.'' s2)
                    else (Inr (), s2))))"
  by (subst read_loop.simps)
     (simp add: serial_read_def feed_def split: option.splits list.splits rd.splits)

lemma feed_cases:
  "feed raw s =
     (if raw = [] then (Inr (), s)
      else case utf8_decode raw of
             None \<Rightarrow> (Inl UnicodeDecodeError, s)
           | Some decoded \<Rightarrow>
               (Inr (), s\<lparr>read_queue := read_queue s @ map py_strip (segments (read_buffer s @ decoded)),
                         read_buffer := remainder (read_buffer s @ decoded)\<rparr>))"
  by (simp add: feed_def split_lines_segments split: option.splits)

lemma read_loop_rel:
  assumes none: "\<And>s. serial s = None \<Longrightarrow> P s (disconnect ''d'' s)"
    and nil: "\<And>s h. serial s = Some h \<Longrightarrow> read_script s = [] \<Longrightarrow> P s (Inr (), s)"
    and idle: "\<And>s h rest. serial s = Some h \<Longrightarrow> read_script s = Idle # rest \<Longrightarrow>
                 P s (Inr (), s\<lparr>read_script := rest\<rparr>)"
    and fails: "\<And>s h rest. serial s = Some h \<Longrightarrow> read_script s = Fails # rest \<Longrightarrow>
                 P s (disconnect ''d'' (s\<lparr>read_script := rest\<rparr>))"
    and bad: "\<And>s h raw rest e s2. serial s = Some h \<Longrightarrow> read_script s = Avail raw # rest \<Longrightarrow>
                 feed raw (s\<lparr>read_script := rest\<rparr>) = (Inl e, s2) \<Longrightarrow> P s (Inl e, s2)"
    and small: "\<And>s h raw rest s2. serial s = Some h \<Longrightarrow> read_script s = Avail raw # rest \<Longrightarrow>
                 feed raw (s\<lparr>read_script := rest\<rparr>) = (Inr (), s2) \<Longrightarrow>
                 length raw \<le> 1000 \<Longrightarrow> P s (Inr (), s2)"
    and big: "\<And>s h raw rest s2. serial s = Some h \<Longrightarrow> read_script s = Avail raw # rest \<Longrightarrow>
                 feed raw (s\<lparr>read_script := rest\<rparr>) = (Inr (), s2) \<Longrightarrow>
                 1000 < length raw \<Longrightarrow>
                 P (invoke_shutdown ''Buffer to large.'' s2)
                   (read_loop (invoke_shutdown ''Buffer to large.'' s2)) \<Longrightarrow>
                 P s (read_loop (invoke_shutdown ''Buffer to large.'' s2))"
  shows "P s (read_loop s)"
proof (induction "length (read_script s)" arbitrary: s rule: less_induct)
  case less
  show ?case
  proof (cases "serial s")
    case None
    with none [of s] show ?thesis by (simp add: read_loop_cases)
  next
    case (Some h)
    show ?thesis
    proof (cases "read_script s")
      case Nil
      with Some nil [of s h] show ?thesis by (simp add: read_loop_cases)
    next
      case (Cons ev rest)
      show ?thesis
      proof (cases ev)
        case Idle
        with Some Cons idle [of s h rest] show ?thesis by (simp add: read_loop_cases)
      next
        case Fails
        with Some Cons fails [of s h rest] show ?thesis by (simp add: read_loop_cases)
      next
        case (Avail raw)
        obtain r s2 where f: "feed raw (s\<lparr>read_script := rest\<rparr>) = (r, s2)"
          by (cases "feed raw (s\<lparr>read_script := rest\<rparr>)")
        from feed_script [OF f] have rs2: "read_script s2 = rest" by simp
        show ?thesis
        proof (cases r)
          case (Inl e)
          with Some Cons Avail f bad [of s h raw rest e s2] show ?thesis
            by (simp add: read_loop_cases)
        next
          case (Inr u)
          show ?thesis
          proof (cases "1000 < length raw")
            case False
            with Some Cons Avail f Inr small [of s h raw rest s2] show ?thesis
              by (simp add: read_loop_cases)
          next
            case True
            have "length (read_script (invoke_shutdown ''Buffer to large.'' s2)) < length (read_script s)"
              using rs2 Cons by (simp add: invoke_shutdown_def)
            from less.hyps [OF this]
            have "P (invoke_shutdown ''Buffer to large.'' s2)
                    (read_loop (invoke_shutdown ''Buffer to large.'' s2))" .
            with Some Cons Avail f Inr True big [of s h raw rest s2] show ?thesis
              by (simp add: read_loop_cases)
          qed
        qed
      qed
    qed
  qed
qed

lemma read_loop_message: "last_debug_message (snd (read_loop s)) = last_debug_message s"
proof (rule read_loop_rel [where P = "\<lambda>s r. last_debug_message (snd r) = last_debug_message s"])
  fix s h raw rest s2
  assume "feed raw (s\<lparr>read_script := rest\<rparr>) = (Inr (), s2)"
    and "last_debug_message (snd (read_loop (invoke_shutdown ''Buffer to large.'' s2))) =
         last_debug_message (invoke_shutdown ''Buffer to large.'' s2)"
  then show "last_debug_message (snd (read_loop (invoke_shutdown ''Buffer to large.'' s2))) =
         last_debug_message s"
    by (auto simp: feed_cases invoke_shutdown_def split: if_splits option.splits)
qed (auto simp: disconnect_eq feed_cases split: if_splits option.splits)

lemma run_Read_message: "last_debug_message (snd (run_Read now t s)) = last_debug_message s"
proof (cases "read_loop s")
  case (Pair r s1)
  with read_loop_message [of s] have "last_debug_message s1 = last_debug_message s" by simp
  with Pair show ?thesis
    by (cases r) (simp_all add: run_Read_def process_read_queue_eq)
qed


lemma run_Read_reading:
  "run_Read now t reading =
     (Inr (At (t + SERIAL_TIMER)),
      reading\<lparr>read_script := [], read_buffer := [10], last_debug_timestamp := now,
              console := [s2t ''Output from SensorArray: 12.5'']\<rparr>)"
  by (simp add: run_Read_def read_loop_cases feed_cases reading_def connected_eq s2b_def s2t_def
      segments.simps remainder.simps CRLF_def py_strip_def isspace_def Let_def
      process_read_queue_eq py_rstrip_def NUL_def)












text \<open>
  Claim C3, evaluated on the code. No invocation of the Read Pump changes
  \<open>last_debug_message\<close>: after the pump has forwarded the line \<open>12.5\<close> to the console
  the status still reports the empty message of the constructor, with the time of that
  invocation. The timestamp is also set by an invocation whose read failed and
  disconnected the driver.
\<close>

theorem status_message_never_set:
  "snd (get_status (snd (run_Read now t s))) = last_debug_message s \<and>
   console (snd (run_Read 7 7 reading)) = [s2t ''Output from SensorArray: 12.5''] \<and>
   get_status (snd (run_Read 7 7 reading)) = (7, []) \<and>
   serial (snd (run_Read 9 9 failing)) = None \<and>
   get_status (snd (run_Read 9 9 failing)) = (9, [])"
proof -
  have "run_Read 9 9 failing =
     (Inr (At (9 + SERIAL_TIMER)), snd (disconnect ''d'' (failing\<lparr>read_script := []\<rparr>))
        \<lparr>last_debug_timestamp := 9\<rparr>)"
    by (simp add: run_Read_def read_loop_cases failing_def connected_eq disconnect_eq
        process_read_queue_eq Let_def)
  then have f: "serial (snd (run_Read 9 9 failing)) = None"
    "get_status (snd (run_Read 9 9 failing)) = (9, [])"
    by (simp_all add: get_status_def disconnect_eq failing_def connected_eq)
  have r: "console (snd (run_Read 7 7 reading)) = [s2t ''Output from SensorArray: 12.5'']"
    "get_status (snd (run_Read 7 7 reading)) = (7, [])"
    by (simp_all add: run_Read_reading get_status_def) (simp add: reading_def connected_eq)
  have "snd (get_status (snd (run_Read now t s))) = last_debug_message s"
    by (simp add: get_status_def run_Read_message)
  with f r show ?thesis by simp
qed

text \<open>
  Claim C5, evaluated on the code. On a connected driver, a read that returns 1000
  bytes or fewer ends the loop of that invocation: the port's next answer is still
  unread when \<open>_run_Read\<close> returns, whatever it is. With \<open>a\<close> and then \<open>b\<close> waiting,
  one invocation reads \<open>a\<close> only.
\<close>

theorem read_pump_single_read:
  "serial s \<noteq> None \<and> read_script s = Avail raw # rest \<and> length raw \<le> 1000 \<longrightarrow>
     read_script (snd (run_Read now t s)) = rest"
proof (intro impI, elim conjE)
  assume ser: "serial s \<noteq> None" and scr: "read_script s = Avail raw # rest"
    and small: "length raw \<le> 1000"
  obtain r s2 where f: "feed raw (s\<lparr>read_script := rest\<rparr>) = (r, s2)"
    by (cases "feed raw (s\<lparr>read_script := rest\<rparr>)")
  from feed_script [OF f] have rs2: "read_script s2 = rest" by simp
  from ser scr small f have "read_loop s = (case r of Inl e \<Rightarrow> (Inl e, s2) | Inr u \<Rightarrow> (Inr (), s2))"
    by (auto simp: read_loop_cases split: sum.splits)
  with rs2 show "read_script (snd (run_Read now t s)) = rest"
    by (cases r) (simp_all add: run_Read_def Let_def process_read_queue_eq)
qed

theorem read_pump_single_read_witness:
  "serial waiting \<noteq> None \<and> read_script waiting = Avail (s2b ''a'') # [Avail (s2b ''b'')] \<and>
   length (s2b ''a'') \<le> 1000 \<and>
   read_script (snd (run_Read 1 1 waiting)) = [Avail (s2b ''b'')] \<and>
   read_buffer (snd (run_Read 1 1 waiting)) = s2t ''a'' \<and>
   fst (run_Read 1 1 waiting) = Inr (At (1 + SERIAL_TIMER))"
proof -
  have w: "serial waiting \<noteq> None" "read_script waiting = Avail (s2b ''a'') # [Avail (s2b ''b'')]"
    "length (s2b ''a'') \<le> 1000"
    by (simp_all add: waiting_def connected_eq s2b_def)
  have "run_Read 1 1 waiting =
     (Inr (At (1 + SERIAL_TIMER)),
      waiting\<lparr>read_script := [Avail (s2b ''b'')], read_buffer := s2t ''a'',
              last_debug_timestamp := 1\<rparr>)"
    by (simp add: run_Read_def read_loop_cases feed_cases waiting_def connected_eq s2b_def s2t_def
      segments.simps remainder.simps CRLF_def Let_def process_read_queue_eq)
  with read_pump_single_read [of waiting "s2b ''a''" "[Avail (s2b ''b'')]" 1 1] w show ?thesis
    by simp
qed

subsection \<open>Poll callback\<close>

lemma sample_terminal:
  "5 \<le> failed_connection_attempts s \<Longrightarrow>
   sample_PLA_SEAR t s = (NEVER, s\<lparr>shutdown_requests := shutdown_requests s @ [LOST]\<rparr>)"
  by (simp add: sample_PLA_SEAR_def invoke_shutdown_def LOST_def)

lemma ticks_terminal:
  "5 \<le> failed_connection_attempts s \<Longrightarrow>
   ticks ts s = (replicate (length ts) NEVER,
                 s\<lparr>shutdown_requests := shutdown_requests s @ replicate (length ts) LOST\<rparr>)"
proof (induction ts arbitrary: s)
  case Nil
  then show ?case by simp
next
  case (Cons t ts)
  let ?s1 = "s\<lparr>shutdown_requests := shutdown_requests s @ [LOST]\<rparr>"
  from Cons.prems have "5 \<le> failed_connection_attempts ?s1" by simp
  from Cons.IH [OF this] Cons.prems show ?case
    by (simp add: sample_terminal replicate_app_Cons_same)
qed

lemma sample_failed_open:
  assumes "failed_connection_attempts s < 5" and "serial s = None"
    and "open_script s = [] \<or> (\<exists>os. open_script s = False # os)"
  shows "sample_PLA_SEAR t s =
     (At (t + SERIAL_TIMER),
      s\<lparr>failed_connection_attempts := failed_connection_attempts s + 1,
        open_calls := Suc (open_calls s), open_script := tl (open_script s)\<rparr>)"
proof -
  from assms(3) obtain os where "open_script s = [] \<or> open_script s = False # os" by auto
  from init_PLA_SEAR_failure [OF this] assms(1,2) show ?thesis
    by (simp add: sample_PLA_SEAR_def handle_connect_def)
qed

lemma schedule_exhausts:
  "serial s = None \<Longrightarrow> failed_connection_attempts s = 5 - int k \<Longrightarrow> k \<le> 5 \<Longrightarrow>
   list_all Not (take k (open_script s)) \<Longrightarrow> k < length ts \<Longrightarrow>
   shutdown_requests (schedule ts s) = shutdown_requests s @ [LOST] \<and>
   open_calls (schedule ts s) = open_calls s + k \<and>
   failed_connection_attempts (schedule ts s) = 5"
proof (induction k arbitrary: s ts)
  case 0
  then obtain t ts' where ts: "ts = t # ts'" by (cases ts) auto
  from 0 have "5 \<le> failed_connection_attempts s" by simp
  from sample_terminal [OF this] 0 show ?case by (simp add: ts)
next
  case (Suc k)
  then obtain t ts' where ts: "ts = t # ts'" by (cases ts) auto
  from Suc.prems have lt: "failed_connection_attempts s < 5" by simp
  from Suc.prems have os: "open_script s = [] \<or> (\<exists>os. open_script s = False # os)"
    by (cases "open_script s") auto
  let ?s1 = "s\<lparr>failed_connection_attempts := failed_connection_attempts s + 1,
        open_calls := Suc (open_calls s), open_script := tl (open_script s)\<rparr>"
  note step = sample_failed_open [OF lt Suc.prems(1) os, of t]
  have "list_all Not (take k (open_script ?s1))"
    using Suc.prems(4) by (cases "open_script s") auto
  moreover have "serial ?s1 = None" "failed_connection_attempts ?s1 = 5 - int k" "k \<le> 5"
    "k < length ts'"
    using Suc.prems ts by simp_all
  ultimately have "shutdown_requests (schedule ts' ?s1) = shutdown_requests ?s1 @ [LOST] \<and>
   open_calls (schedule ts' ?s1) = open_calls ?s1 + k \<and>
   failed_connection_attempts (schedule ts' ?s1) = 5"
    using Suc.IH [of ?s1 ts'] by blast
  then show ?case by (simp add: ts step)
qed

lemma exhausted_eq:
  "exhausted = fresh\<lparr>failed_connection_attempts := 5, open_calls := 5\<rparr>"
  by (simp add: exhausted_def fresh_def init_state_def sample_PLA_SEAR_def handle_connect_def
      init_PLA_SEAR_failure [of _ "[]"] eval_nat_numeral)

text \<open>
  Claim C2, as the code has it. Once the failure counter is 5 or more, a tick of the
  poll callback attempts no connection, appends one shutdown request, whose reason
  contains \<open>could not be reestablished\<close>, returns the sentinel and changes nothing
  else; the counter stays, so every further tick does the same and issues the request
  again. Under a scheduler that stops at the sentinel, a driver whose first five opens
  fail ends with exactly five open attempts and exactly one shutdown request.
\<close>

theorem failure_threshold_terminal:
  "(5 \<le> failed_connection_attempts s \<longrightarrow>
      sample_PLA_SEAR t s = (NEVER, s\<lparr>shutdown_requests := shutdown_requests s @ [LOST]\<rparr>) \<and>
      open_calls (snd (sample_PLA_SEAR t s)) = open_calls s \<and>
      ticks ts s = (replicate (length ts) NEVER,
                    s\<lparr>shutdown_requests := shutdown_requests s @ replicate (length ts) LOST\<rparr>)) \<and>
   sublist ''could not be reestablished'' LOST \<and>
   (list_all Not (take 5 os) \<and> 5 < length ts' \<longrightarrow>
      shutdown_requests (schedule ts' (init_state port now os rs ws cr)) = [LOST] \<and>
      open_calls (schedule ts' (init_state port now os rs ws cr)) = 5)"
proof (intro conjI impI)
  assume a: "5 \<le> failed_connection_attempts s"
  show "sample_PLA_SEAR t s = (NEVER, s\<lparr>shutdown_requests := shutdown_requests s @ [LOST]\<rparr>)"
    by (rule sample_terminal [OF a])
  then show "open_calls (snd (sample_PLA_SEAR t s)) = open_calls s" by simp
  show "ticks ts s = (replicate (length ts) NEVER,
                    s\<lparr>shutdown_requests := shutdown_requests s @ replicate (length ts) LOST\<rparr>)"
    by (rule ticks_terminal [OF a])
next
  have "LOST = ''Connection to SensorArray lost and '' @ ''could not be reestablished'' @ ''!''"
    by (simp add: LOST_def)
  then show "sublist ''could not be reestablished'' LOST"
    unfolding sublist_def by blast
next
  assume a: "list_all Not (take 5 os) \<and> 5 < length ts'"
  let ?s = "init_state port now os rs ws cr"
  have "serial ?s = None" "failed_connection_attempts ?s = 5 - int 5" "(5::nat) \<le> 5"
    "list_all Not (take 5 (open_script ?s))" "5 < length ts'"
    using a by (simp_all add: init_state_def)
  from schedule_exhausts [OF this]
  show "shutdown_requests (schedule ts' ?s) = [LOST]" "open_calls (schedule ts' ?s) = 5"
    by (simp_all add: init_state_def)
qed

theorem failure_threshold_terminal_witness:
  "5 \<le> failed_connection_attempts exhausted \<and>
   sample_PLA_SEAR 6 exhausted = (NEVER, exhausted\<lparr>shutdown_requests := [LOST]\<rparr>) \<and>
   open_calls (snd (sample_PLA_SEAR 6 exhausted)) = 5 \<and>
   fst (ticks [6, 7, 8] exhausted) = [NEVER, NEVER, NEVER] \<and>
   list_all Not (take 5 [False, False, False, False, False, True]) \<and>
   5 < length [1, 2, 3, 4, 5, 6, 7 :: real] \<and>
   shutdown_requests (schedule [1, 2, 3, 4, 5, 6, 7]
     (init_state ''/dev/ttyUSB0'' 0 [False, False, False, False, False, True] [] [] False)) = [LOST] \<and>
   open_calls (schedule [1, 2, 3, 4, 5, 6, 7]
     (init_state ''/dev/ttyUSB0'' 0 [False, False, False, False, False, True] [] [] False)) = 5"
proof -
  have f: "5 \<le> failed_connection_attempts exhausted" "shutdown_requests exhausted = []"
    "open_calls exhausted = 5"
    by (simp_all add: exhausted_eq fresh_def init_state_def)
  have g: "list_all Not (take 5 [False, False, False, False, False, True])"
    "5 < length [1, 2, 3, 4, 5, 6, 7 :: real]"
    by (simp_all add: eval_nat_numeral)
  from failure_threshold_terminal [where s = exhausted and t = 6 and ts = "[6, 7, 8]"
      and os = "[False, False, False, False, False, True]" and ts' = "[1, 2, 3, 4, 5, 6, 7]"
      and port = "''/dev/ttyUSB0''" and now = 0 and rs = "[]" and ws = "[]" and cr = False] f g
  show ?thesis by (simp del: ticks.simps schedule.simps)
qed

theorem shutdown_once_counterexample:
  "failed_connection_attempts exhausted = 5 \<and>
   fst (ticks [6, 7] exhausted) = [NEVER, NEVER] \<and>
   shutdown_requests (snd (ticks [6, 7] exhausted)) = [LOST, LOST]"
  by (simp add: exhausted_eq sample_PLA_SEAR_def invoke_shutdown_def LOST_def fresh_def
      init_state_def)

subsection \<open>Write Pump\<close>

lemma write_script_nil:
  "write_script s = [] \<Longrightarrow>
   s\<lparr>write_queue := q, wire := w, write_script := []\<rparr> = s\<lparr>write_queue := q, wire := w\<rparr>"
  by (cases s) simp

lemma write_loop_cases:
  "write_loop s =
     (case write_queue s of
        [] \<Rightarrow> (Inr (), s)
      | x # rest \<Rightarrow>
          if x = [] then write_loop (s\<lparr>write_queue := rest\<rparr>)
          else (case serial s of
                  None \<Rightarrow> disconnect ''d'' (s\<lparr>write_queue := rest\<rparr>)
                | Some h \<Rightarrow>
                    (case write_script s of
                       False # ws \<Rightarrow> disconnect ''d'' (s\<lparr>write_queue := rest, write_script := ws\<rparr>)
                     | _ \<Rightarrow> write_loop (s\<lparr>write_queue := rest, wire := wire s @ [x],
                                          write_script := tl (write_script s)\<rparr>))))"
  by (subst write_loop.simps)
     (simp add: serial_write_def Let_def write_script_nil
        split: option.splits list.splits bool.splits)

lemma write_loop_rel:
  assumes nil: "\<And>s. write_queue s = [] \<Longrightarrow> P s (Inr (), s)"
    and skip: "\<And>s rest. write_queue s = [] # rest \<Longrightarrow>
                 P (s\<lparr>write_queue := rest\<rparr>) (write_loop (s\<lparr>write_queue := rest\<rparr>)) \<Longrightarrow>
                 P s (write_loop (s\<lparr>write_queue := rest\<rparr>))"
    and none: "\<And>s x rest. write_queue s = x # rest \<Longrightarrow> x \<noteq> [] \<Longrightarrow> serial s = None \<Longrightarrow>
                 P s (disconnect ''d'' (s\<lparr>write_queue := rest\<rparr>))"
    and fails: "\<And>s x rest h ws. write_queue s = x # rest \<Longrightarrow> x \<noteq> [] \<Longrightarrow>
                 serial s = Some h \<Longrightarrow> write_script s = False # ws \<Longrightarrow>
                 P s (disconnect ''d'' (s\<lparr>write_queue := rest, write_script := ws\<rparr>))"
    and sent: "\<And>s x rest h. write_queue s = x # rest \<Longrightarrow> x \<noteq> [] \<Longrightarrow>
                 serial s = Some h \<Longrightarrow> write_script s = [] \<or> (\<exists>ws. write_script s = True # ws) \<Longrightarrow>
                 P (s\<lparr>write_queue := rest, wire := wire s @ [x], write_script := tl (write_script s)\<rparr>)
                   (write_loop (s\<lparr>write_queue := rest, wire := wire s @ [x],
                                  write_script := tl (write_script s)\<rparr>)) \<Longrightarrow>
                 P s (write_loop (s\<lparr>write_queue := rest, wire := wire s @ [x],
                                  write_script := tl (write_script s)\<rparr>))"
  shows "P s (write_loop s)"
proof (induction "write_queue s" arbitrary: s)
  case Nil
  with nil [of s] show ?case by (simp add: write_loop_cases)
next
  case (Cons x rest)
  from Cons.hyps(2) have q: "write_queue s = x # rest" by simp
  show ?case
  proof (cases "x = []")
    case True
    have "rest = write_queue (s\<lparr>write_queue := rest\<rparr>)" by simp
    from Cons.hyps(1) [OF this] q True skip [of s rest] show ?thesis
      by (simp add: write_loop_cases)
  next
    case False
    show ?thesis
    proof (cases "serial s")
      case None
      with q False none [of s x rest] show ?thesis by (simp add: write_loop_cases)
    next
      case (Some h)
      show ?thesis
      proof (cases "\<exists>ws. write_script s = False # ws")
        case True
        then obtain ws where "write_script s = False # ws" ..
        with q False Some fails [of s x rest h ws] show ?thesis
          by (simp add: write_loop_cases)
      next
        case nf: False
        let ?s1 = "s\<lparr>write_queue := rest, wire := wire s @ [x], write_script := tl (write_script s)\<rparr>"
        from nf have ok: "write_script s = [] \<or> (\<exists>ws. write_script s = True # ws)"
          by (cases "write_script s") auto
        have "rest = write_queue ?s1" by simp
        from Cons.hyps(1) [OF this] have "P ?s1 (write_loop ?s1)" .
        from sent [OF q False Some ok this] have "P s (write_loop ?s1)" .
        moreover from q False Some ok have "write_loop s = write_loop ?s1"
          by (subst write_loop_cases) auto
        ultimately show ?thesis by simp
      qed
    qed
  qed
qed

lemma write_loop_returns: "fst (write_loop s) = Inr ()"
  by (rule write_loop_rel [where P = "\<lambda>s r. fst r = Inr ()"]) (simp_all add: disconnect_eq)

lemma write_loop_prefix:
  "\<exists>n. wire (snd (write_loop s)) = wire s @ take n (filter nonempty (write_queue s))"
proof (rule write_loop_rel [where P = "\<lambda>s r. \<exists>n. wire (snd r) = wire s @ take n (filter nonempty (write_queue s))"])
  fix s :: state and x rest h
  let ?s1 = "s\<lparr>write_queue := rest, wire := wire s @ [x], write_script := tl (write_script s)\<rparr>"
  assume q: "write_queue s = x # rest" and ne: "x \<noteq> []"
    and "\<exists>n. wire (snd (write_loop ?s1)) = wire ?s1 @ take n (filter nonempty (write_queue ?s1))"
  then obtain n where "wire (snd (write_loop ?s1)) = (wire s @ [x]) @ take n (filter nonempty rest)"
    by auto
  with q ne have "wire (snd (write_loop ?s1)) = wire s @ take (Suc n) (filter nonempty (write_queue s))"
    by (simp add: nonempty_def)
  then show "\<exists>n. wire (snd (write_loop ?s1)) = wire s @ take n (filter nonempty (write_queue s))" ..
next
  fix s :: state
  assume "write_queue s = []"
  then show "\<exists>n. wire (snd (Inr (), s)) = wire s @ take n (filter nonempty (write_queue s))"
    by simp
next
  fix s :: state and rest
  assume "write_queue s = [] # rest"
    and "\<exists>n. wire (snd (write_loop (s\<lparr>write_queue := rest\<rparr>))) =
             wire (s\<lparr>write_queue := rest\<rparr>) @ take n (filter nonempty (write_queue (s\<lparr>write_queue := rest\<rparr>)))"
  then show "\<exists>n. wire (snd (write_loop (s\<lparr>write_queue := rest\<rparr>))) =
             wire s @ take n (filter nonempty (write_queue s))"
    by (simp add: nonempty_def)
next
  fix s :: state and x rest
  have "wire (snd (disconnect ''d'' (s\<lparr>write_queue := rest\<rparr>))) = wire s @ take 0 (filter nonempty (write_queue s))"
    by (simp add: disconnect_eq)
  then show "\<exists>n. wire (snd (disconnect ''d'' (s\<lparr>write_queue := rest\<rparr>))) = wire s @ take n (filter nonempty (write_queue s))" ..
next
  fix s :: state and x rest ws
  have "wire (snd (disconnect ''d'' (s\<lparr>write_queue := rest, write_script := ws\<rparr>))) = wire s @ take 0 (filter nonempty (write_queue s))"
    by (simp add: disconnect_eq)
  then show "\<exists>n. wire (snd (disconnect ''d'' (s\<lparr>write_queue := rest, write_script := ws\<rparr>))) = wire s @ take n (filter nonempty (write_queue s))" ..
qed

lemma write_loop_disconnected: "serial s = None \<Longrightarrow> wire (snd (write_loop s)) = wire s"
proof -
  have "serial s = None \<longrightarrow> wire (snd (write_loop s)) = wire s"
    by (rule write_loop_rel [where P = "\<lambda>s r. serial s = None \<longrightarrow> wire (snd r) = wire s"])
       (simp_all add: disconnect_eq)
  then show "serial s = None \<Longrightarrow> wire (snd (write_loop s)) = wire s" by simp
qed

lemma write_loop_drains:
  "serial s = Some h \<Longrightarrow>
   list_all id (take (length (filter nonempty (write_queue s))) (write_script s)) \<Longrightarrow>
   write_loop s =
     (Inr (), s\<lparr>write_queue := [], wire := wire s @ filter nonempty (write_queue s),
               write_script := drop (length (filter nonempty (write_queue s))) (write_script s)\<rparr>)"
proof (induction "write_queue s" arbitrary: s)
  case Nil
  then show ?case by (simp add: write_loop_cases)
next
  case (Cons x rest)
  from Cons.hyps(2) have q: "write_queue s = x # rest" by simp
  show ?case
  proof (cases "x = []")
    case True
    let ?s1 = "s\<lparr>write_queue := rest\<rparr>"
    have "rest = write_queue ?s1" "serial ?s1 = Some h"
      "list_all id (take (length (filter nonempty (write_queue ?s1))) (write_script ?s1))"
      using Cons.prems q True by (simp_all add: nonempty_def)
    from Cons.hyps(1) [OF this] q True show ?thesis
      by (subst write_loop_cases) (simp add: nonempty_def)
  next
    case False
    let ?s1 = "s\<lparr>write_queue := rest, wire := wire s @ [x], write_script := tl (write_script s)\<rparr>"
    from Cons.prems(2) q False have nf: "\<not> (\<exists>ws. write_script s = False # ws)"
      by (auto simp: nonempty_def)
    then have ok: "write_script s = [] \<or> (\<exists>ws. write_script s = True # ws)"
      by (cases "write_script s") auto
    have "rest = write_queue ?s1" "serial ?s1 = Some h"
      "list_all id (take (length (filter nonempty (write_queue ?s1))) (write_script ?s1))"
      using Cons.prems q False ok by (auto simp: nonempty_def)
    from Cons.hyps(1) [OF this] q False Cons.prems(1) ok show ?thesis
      by (subst write_loop_cases) (auto simp: nonempty_def drop_Suc)
  qed
qed

lemma write_loop_aborts:
  "serial s = Some h \<Longrightarrow> write_queue s = pre @ x # post \<Longrightarrow> x \<noteq> [] \<Longrightarrow>
   write_script s = replicate (length (filter nonempty pre)) True @ False # ws \<Longrightarrow>
   write_loop s =
     disconnect ''d'' (s\<lparr>write_queue := post, wire := wire s @ filter nonempty pre,
                          write_script := ws\<rparr>)"
proof (induction pre arbitrary: s)
  case Nil
  then show ?case by (subst write_loop_cases) simp
next
  case (Cons y pre)
  show ?case
  proof (cases "y = []")
    case True
    let ?s1 = "s\<lparr>write_queue := pre @ x # post\<rparr>"
    have "serial ?s1 = Some h" "write_queue ?s1 = pre @ x # post"
      "write_script ?s1 = replicate (length (filter nonempty pre)) True @ False # ws"
      using Cons.prems True by (simp_all add: nonempty_def)
    from Cons.IH [OF this(1,2) Cons.prems(3) this(3)] Cons.prems True show ?thesis
      by (subst write_loop_cases) (simp add: nonempty_def)
  next
    case False
    let ?s1 = "s\<lparr>write_queue := pre @ x # post, wire := wire s @ [y],
                  write_script := tl (write_script s)\<rparr>"
    have "serial ?s1 = Some h" "write_queue ?s1 = pre @ x # post"
      "write_script ?s1 = replicate (length (filter nonempty pre)) True @ False # ws"
      using Cons.prems False by (simp_all add: nonempty_def)
    from Cons.IH [OF this(1,2) Cons.prems(3) this(3)] Cons.prems False show ?thesis
      by (subst write_loop_cases) (simp add: nonempty_def)
  qed
qed


lemma run_Write_eq: "run_Write t s = (Inr (At (t + SERIAL_TIMER)), snd (write_loop s))"
  using write_loop_returns [of s] by (cases "write_loop s") (simp add: run_Write_def)

text \<open>
  Claim C8. Every invocation of \<open>_run_Write\<close> returns the next tick time. What it
  transmits is an initial part, in queue order, of the non-empty entries of the queue.
  When the driver is connected and no write fails, that is all of them and the queue is
  empty afterwards. When the write of an entry fails, what was transmitted is the
  non-empty entries before it; the entries after it were not transmitted and stay in
  the queue, followed by the disconnect message, and the driver is disconnected with
  its write timer released, so that a later invocation transmits nothing either, and
  the next successful connection empties the queue without transmitting them. A
  disconnected driver transmits nothing.
\<close>

theorem write_pump_fifo:
  "fst (run_Write t s) = Inr (At (t + SERIAL_TIMER)) \<and>
   (\<exists>n. wire (snd (run_Write t s)) = wire s @ take n (filter nonempty (write_queue s))) \<and>
   (serial s \<noteq> None \<and>
    list_all id (take (length (filter nonempty (write_queue s))) (write_script s)) \<longrightarrow>
      wire (snd (run_Write t s)) = wire s @ filter nonempty (write_queue s) \<and>
      write_queue (snd (run_Write t s)) = [] \<and>
      serial (snd (run_Write t s)) = serial s) \<and>
   (serial s \<noteq> None \<and> write_queue s = pre @ x # post \<and> x \<noteq> [] \<and>
    write_script s = replicate (length (filter nonempty pre)) True @ False # ws \<longrightarrow>
      wire (snd (run_Write t s)) = wire s @ filter nonempty pre \<and>
      write_queue (snd (run_Write t s)) = post @ [''d''] \<and>
      serial (snd (run_Write t s)) = None \<and>
      write_timer (snd (run_Write t s)) = None \<and>
      wire (snd (run_Write t' (snd (run_Write t s)))) = wire (snd (run_Write t s)) \<and>
      (open_script s = True # os \<longrightarrow>
         write_queue (handle_connect (snd (run_Write t s))) = [] \<and>
         wire (handle_connect (snd (run_Write t s))) = wire s @ filter nonempty pre)) \<and>
   (serial s = None \<longrightarrow> wire (snd (run_Write t s)) = wire s)"
proof (intro conjI impI)
  show "fst (run_Write t s) = Inr (At (t + SERIAL_TIMER))"
    by (simp add: run_Write_eq)
  show "\<exists>n. wire (snd (run_Write t s)) = wire s @ take n (filter nonempty (write_queue s))"
    using write_loop_prefix [of s] by (simp add: run_Write_eq)
next
  assume "serial s \<noteq> None \<and>
    list_all id (take (length (filter nonempty (write_queue s))) (write_script s))"
  then obtain h where "serial s = Some h"
    and "list_all id (take (length (filter nonempty (write_queue s))) (write_script s))"
    by auto
  note d = write_loop_drains [OF this]
  show "wire (snd (run_Write t s)) = wire s @ filter nonempty (write_queue s)"
    "write_queue (snd (run_Write t s)) = []" "serial (snd (run_Write t s)) = serial s"
    by (simp_all add: run_Write_eq d)
next
  assume "serial s \<noteq> None \<and> write_queue s = pre @ x # post \<and> x \<noteq> [] \<and>
    write_script s = replicate (length (filter nonempty pre)) True @ False # ws"
  then obtain h where "serial s = Some h" "write_queue s = pre @ x # post" "x \<noteq> []"
    "write_script s = replicate (length (filter nonempty pre)) True @ False # ws"
    by auto
  note a = write_loop_aborts [OF this]
  show "wire (snd (run_Write t s)) = wire s @ filter nonempty pre"
    "write_queue (snd (run_Write t s)) = post @ [''d'']"
    "serial (snd (run_Write t s)) = None" "write_timer (snd (run_Write t s)) = None"
    by (simp_all add: run_Write_eq a disconnect_eq)
  then show "wire (snd (run_Write t' (snd (run_Write t s)))) = wire (snd (run_Write t s))"
    using write_loop_disconnected [of "snd (run_Write t s)"] by (simp add: run_Write_eq)
  {
    assume "open_script s = True # os"
    then have "open_script (snd (run_Write t s)) = True # os"
      by (simp add: run_Write_eq a disconnect_eq)
    from init_PLA_SEAR_success [OF this]
    show "write_queue (handle_connect (snd (run_Write t s))) = []"
      "wire (handle_connect (snd (run_Write t s))) = wire s @ filter nonempty pre"
      by (simp_all add: handle_connect_def run_Write_eq a disconnect_eq)
  }
next
  assume "serial s = None"
  from write_loop_disconnected [OF this]
  show "wire (snd (run_Write t s)) = wire s" by (simp add: run_Write_eq)
qed

theorem write_pump_fifo_witness:
  "serial queued \<noteq> None \<and>
   list_all id (take (length (filter nonempty (write_queue queued))) (write_script queued)) \<and>
   wire (snd (run_Write 1 queued)) = [''A'', ''B'', ''C''] \<and>
   write_queue (snd (run_Write 1 queued)) = [] \<and>
   serial breaking \<noteq> None \<and> write_queue breaking = [''A'', []] @ ''B'' # [''C''] \<and>
   write_script breaking = replicate (length (filter nonempty [''A'', []])) True @ False # [] \<and>
   wire (snd (run_Write 1 breaking)) = [''A''] \<and>
   write_queue (snd (run_Write 1 breaking)) = [''C'', ''d''] \<and>
   serial (snd (run_Write 1 breaking)) = None \<and>
   wire (snd (run_Write 2 (snd (run_Write 1 breaking)))) = [''A''] \<and>
   fst (run_Write 1 breaking) = Inr (At (1 + SERIAL_TIMER)) \<and>
   open_script breaking = True # [] \<and>
   write_queue (handle_connect (snd (run_Write 1 breaking))) = [] \<and>
   wire (handle_connect (snd (run_Write 1 breaking))) = [''A'']"
proof -
  have q: "serial queued \<noteq> None" "write_queue queued = [''A'', [], ''B'', ''C'']"
    "write_script queued = []" "wire queued = []"
    by (simp_all add: queued_def connected_eq)
  have b: "serial breaking \<noteq> None" "write_queue breaking = [''A'', []] @ ''B'' # [''C'']"
    "write_script breaking = replicate (length (filter nonempty [''A'', []])) True @ False # []"
    "wire breaking = []" "open_script breaking = True # []"
    by (simp_all add: breaking_def connected_eq nonempty_def)
  from write_pump_fifo [of 1 queued] q
  have "wire (snd (run_Write 1 queued)) = [''A'', ''B'', ''C'']"
    "write_queue (snd (run_Write 1 queued)) = []"
    by (simp_all add: nonempty_def)
  moreover from write_pump_fifo [of 1 breaking "[''A'', []]" "''B''" "[''C'']" "[]" 2 "[]"] b
  have "wire (snd (run_Write 1 breaking)) = [''A'']"
    "write_queue (snd (run_Write 1 breaking)) = [''C'', ''d'']"
    "serial (snd (run_Write 1 breaking)) = None"
    "wire (snd (run_Write 2 (snd (run_Write 1 breaking)))) = [''A'']"
    "fst (run_Write 1 breaking) = Inr (At (1 + SERIAL_TIMER))"
    "write_queue (handle_connect (snd (run_Write 1 breaking))) = []"
    "wire (handle_connect (snd (run_Write 1 breaking))) = [''A'']"
    by (simp_all add: nonempty_def)
  ultimately show ?thesis using q b by (simp add: nonempty_def)
qed

subsection \<open>The timers of the two pumps\<close>










end
